theory Spec2Isabelle
  imports Main "HOL-Library.Monad_Syntax" "HOL-Library.Sublist"
begin

section \<open>The spell checker of \<open>spellcheck.js\<close>\<close>

text \<open>
  The script ranks the words of a dictionary by a weighted edit distance to the text typed
  so far. Two functions carry the algorithm: \<open>sequenceTable\<close>, which fills a
  dynamic-programming table, and \<open>getSuggestions\<close>, which sorts the dictionary by that
  distance and keeps the first ten words.

  A JavaScript string is modelled as a \<^typ>\<open>string\<close>, one \<^typ>\<open>char\<close> per code unit. A
  \<^typ>\<open>char\<close> has 256 values where a code unit has 65536; the script only compares code
  units for equality and looks them up in the ten ASCII vowels, so every branch of the
  code is reached by strings of the model. The
  numbers of the table are small non-negative integers (far below \<open>2^53\<close>), so the doubles
  of JavaScript are modelled as \<^typ>\<open>int\<close>.
\<close>

subsection \<open>Vowel classification\<close>

text \<open>\<open>String.prototype.includes\<close>: does the second string occur inside the first?\<close>

fun starts_with :: "string \<Rightarrow> string \<Rightarrow> bool" where
  "starts_with s [] = True"
| "starts_with [] (c # cs) = False"
| "starts_with (x # xs) (c # cs) = (x = c \<and> starts_with xs cs)"

fun str_includes :: "string \<Rightarrow> string \<Rightarrow> bool" where
  "str_includes [] t = (t = [])"
| "str_includes (x # xs) t = (starts_with (x # xs) t \<or> str_includes xs t)"

text \<open>\<open>isVowel(char)\<close> is \<open>"aeiouAEIOU".includes(char)\<close>, called on one-character strings.\<close>

definition isVowel :: "char \<Rightarrow> bool" where
  "isVowel c = str_includes ''aeiouAEIOU'' [c]"

subsection \<open>The table and its accesses\<close>

text \<open>
  \<open>dp\<close> is an array of \<open>m + 1\<close> rows, each a fresh array of \<open>n + 1\<close> zeros. The model
  reports every access outside the allocated table as \<open>None\<close>: there JavaScript would read
  \<open>undefined\<close>, grow a row, or throw a \<open>TypeError\<close> on a missing row. The theorems below
  show that no such access ever happens.
\<close>

type_synonym table = "int list list"

definition get :: "table \<Rightarrow> nat \<Rightarrow> nat \<Rightarrow> int option" where
  "get dp i j = (if i < length dp \<and> j < length (dp ! i) then Some (dp ! i ! j) else None)"

definition put :: "table \<Rightarrow> nat \<Rightarrow> nat \<Rightarrow> int \<Rightarrow> table option" where
  "put dp i j v =
     (if i < length dp \<and> j < length (dp ! i) then Some (dp[i := (dp ! i)[j := v]]) else None)"

definition char_at :: "string \<Rightarrow> nat \<Rightarrow> char option" where
  "char_at s i = (if i < length s then Some (s ! i) else None)"

text \<open>A counting \<open>for\<close> loop over the given indices; it stops at the first failing access.\<close>

fun for_each :: "nat list \<Rightarrow> (nat \<Rightarrow> 's \<Rightarrow> 's option) \<Rightarrow> 's \<Rightarrow> 's option" where
  "for_each [] body s = Some s"
| "for_each (i # is) body s =
     (case body i s of None \<Rightarrow> None | Some s' \<Rightarrow> for_each is body s')"

subsection \<open>\<open>sequenceTable\<close>\<close>

text \<open>The body of the two nested loops, for the cell \<open>(i, j)\<close> with \<open>1 \<le> i\<close> and \<open>1 \<le> j\<close>.\<close>

definition cell :: "string \<Rightarrow> string \<Rightarrow> nat \<Rightarrow> nat \<Rightarrow> table \<Rightarrow> table option" where
  "cell s1 s2 i j dp = do {
     char1 \<leftarrow> char_at s1 (i - 1);
     char2 \<leftarrow> char_at s2 (j - 1);
     let cost = (if char1 = char2 then 0
                 else if isVowel char1 \<and> isVowel char2 then 1
                 else if \<not> isVowel char1 \<and> \<not> isVowel char2 then 1
                 else 3);
     del \<leftarrow> get dp (i - 1) j;
     ins \<leftarrow> get dp i (j - 1);
     sub \<leftarrow> get dp (i - 1) (j - 1);
     put dp i j (min (del + 2) (min (ins + 2) (sub + cost)))
   }"

definition sequenceTable :: "string \<Rightarrow> string \<Rightarrow> int option" where
  "sequenceTable s1 s2 =
     (let m = length s1; n = length s2;
          dp = replicate (m + 1) (replicate (n + 1) 0)
      in do {
        dp \<leftarrow> for_each [0..<m + 1] (\<lambda>i dp. put dp i 0 (int i * 2)) dp;
        dp \<leftarrow> for_each [0..<n + 1] (\<lambda>j dp. put dp 0 j (int j * 2)) dp;
        dp \<leftarrow> for_each [1..<m + 1] (\<lambda>i dp. for_each [1..<n + 1] (\<lambda>j dp. cell s1 s2 i j dp) dp) dp;
        get dp m n
      })"

subsection \<open>\<open>getSuggestions\<close>\<close>

record item =
  word :: string
  distance :: int

text \<open>
  \<open>Array.prototype.sort\<close> with a comparison function. ECMAScript (2019 and later) requires
  the sort to be stable, and for a comparison function that is a consistent ordering the
  result of a stable sort does not depend on the algorithm; insertion is the simplest one.
\<close>

fun insert_cmp :: "('a \<Rightarrow> 'a \<Rightarrow> int) \<Rightarrow> 'a \<Rightarrow> 'a list \<Rightarrow> 'a list" where
  "insert_cmp cmp x [] = [x]"
| "insert_cmp cmp x (y # ys) =
     (if cmp x y \<le> 0 then x # y # ys else y # insert_cmp cmp x ys)"

definition sort_cmp :: "('a \<Rightarrow> 'a \<Rightarrow> int) \<Rightarrow> 'a list \<Rightarrow> 'a list" where
  "sort_cmp cmp xs = foldr (insert_cmp cmp) xs []"

text \<open>\<open>Array.prototype.map\<close> with a callback that may fail.\<close>

fun map_each :: "('a \<Rightarrow> 'b option) \<Rightarrow> 'a list \<Rightarrow> 'b list option" where
  "map_each f [] = Some []"
| "map_each f (x # xs) =
     (case f x of None \<Rightarrow> None
      | Some y \<Rightarrow> (case map_each f xs of None \<Rightarrow> None | Some ys \<Rightarrow> Some (y # ys)))"

text \<open>
  The script keeps the dictionary in a global variable that only the loader assigns; the
  model takes it as the first argument. \<open>!input\<close> holds of a string exactly when it is
  empty.
\<close>

definition getSuggestions :: "string list \<Rightarrow> string \<Rightarrow> string list option" where
  "getSuggestions dictionary input =
     (if input = [] then Some []
      else do {
        distances \<leftarrow> map_each (\<lambda>w. do {
            d \<leftarrow> sequenceTable input w;
            Some \<lparr>word = w, distance = d\<rparr>
          }) dictionary;
        Some (map word (take 10 (sort_cmp (\<lambda>a b. distance a - distance b) distances)))
      })"

subsection \<open>The table of the specification\<close>

text \<open>
  The dynamic-programming table as the specification words it: the base row and column
  hold the gap costs, every other cell is the minimum of a deletion, an insertion and a
  substitution, whose cost depends on the vowel classes of the two characters.
\<close>

definition vowel_spec :: "char \<Rightarrow> bool" where
  "vowel_spec c = (c \<in> set ''aeiou'' \<or> c \<in> set ''AEIOU'')"

definition cost_spec :: "char \<Rightarrow> char \<Rightarrow> int" where
  "cost_spec a b =
     (if a = b then 0
      else if vowel_spec a \<and> vowel_spec b then 1
      else if \<not> vowel_spec a \<and> \<not> vowel_spec b then 1
      else 3)"

fun dp_spec :: "string \<Rightarrow> string \<Rightarrow> nat \<Rightarrow> nat \<Rightarrow> int" where
  "dp_spec s1 s2 0 j = 2 * int j"
| "dp_spec s1 s2 (Suc i) 0 = 2 * int (Suc i)"
| "dp_spec s1 s2 (Suc i) (Suc j) =
     min (dp_spec s1 s2 i (Suc j) + 2)
       (min (dp_spec s1 s2 (Suc i) j + 2)
          (dp_spec s1 s2 i j + cost_spec (s1 ! i) (s2 ! j)))"

subsection \<open>Invariants of the loops\<close>

text \<open>The table keeps its allocated shape: \<open>m + 1\<close> rows of \<open>n + 1\<close> cells.\<close>

definition dims :: "table \<Rightarrow> nat \<Rightarrow> nat \<Rightarrow> bool" where
  "dims dp m n = (length dp = Suc m \<and> (\<forall>i \<le> m. length (dp ! i) = Suc n))"

text \<open>
  The cells written so far when the nested loops reach the cell \<open>(i, j)\<close>: the base row
  and column, the rows above \<open>i\<close>, and row \<open>i\<close> left of column \<open>j\<close>. All of them hold
  the value of the specification's table.
\<close>

definition filled :: "string \<Rightarrow> string \<Rightarrow> nat \<Rightarrow> nat \<Rightarrow> table \<Rightarrow> bool" where
  "filled s1 s2 i j dp =
     (dims dp (length s1) (length s2) \<and>
      (\<forall>i' j'. i' \<le> length s1 \<longrightarrow> j' \<le> length s2 \<longrightarrow>
         (i' = 0 \<or> j' = 0 \<or> i' < i \<or> (i' = i \<and> j' < j)) \<longrightarrow>
         dp ! i' ! j' = dp_spec s1 s2 i' j'))"

section \<open>The distance engine computes the specified table\<close>

lemma isVowel_iff: "isVowel c = vowel_spec c"
  by (auto simp: isVowel_def vowel_spec_def)

lemma dims_replicate: "dims (replicate (m + 1) (replicate (n + 1) 0)) m n"
  unfolding dims_def by (simp del: replicate.simps add: less_Suc_eq_le [symmetric])

lemma get_dims: "dims dp m n \<Longrightarrow> i \<le> m \<Longrightarrow> j \<le> n \<Longrightarrow> get dp i j = Some (dp ! i ! j)"
  by (simp add: dims_def get_def)

lemma put_dims:
  "dims dp m n \<Longrightarrow> i \<le> m \<Longrightarrow> j \<le> n \<Longrightarrow> put dp i j v = Some (dp[i := (dp ! i)[j := v]])"
  by (simp add: dims_def put_def)

lemma dims_update:
  "dims dp m n \<Longrightarrow> dims (dp[i := (dp ! i)[j := v]]) m n"
  by (cases "i \<le> m") (auto simp: dims_def nth_list_update)

lemma nth_update:
  "dims dp m n \<Longrightarrow> i \<le> m \<Longrightarrow> j \<le> n \<Longrightarrow> i' \<le> m \<Longrightarrow>
   dp[i := (dp ! i)[j := v]] ! i' ! j' = (if i' = i \<and> j' = j then v else dp ! i' ! j')"
  by (auto simp: dims_def nth_list_update)

lemma for_each_append:
  "for_each (xs @ ys) body s =
     (case for_each xs body s of None \<Rightarrow> None | Some s' \<Rightarrow> for_each ys body s')"
  by (induction xs arbitrary: s) (auto split: option.splits)

lemma for_each_invariant:
  assumes start: "I a s" and le: "a \<le> b"
    and step: "\<And>i s. a \<le> i \<Longrightarrow> i < b \<Longrightarrow> I i s \<Longrightarrow> \<exists>s'. body i s = Some s' \<and> I (Suc i) s'"
  shows "\<exists>s'. for_each [a..<b] body s = Some s' \<and> I b s'"
  using le step
proof (induction b)
  case 0
  with start show ?case by simp
next
  case (Suc b)
  show ?case
  proof (cases "a = Suc b")
    case True
    with start show ?thesis by simp
  next
    case False
    with Suc.prems have ab: "a \<le> b" by simp
    have "\<exists>s'. for_each [a..<b] body s = Some s' \<and> I b s'"
      using Suc.IH [OF ab] Suc.prems(2) by simp
    then obtain s1 where s1: "for_each [a..<b] body s = Some s1" "I b s1" by blast
    from Suc.prems(2) [OF ab _ s1(2)] obtain s2 where s2: "body b s1 = Some s2" "I (Suc b) s2"
      by auto
    from ab s1 s2 show ?thesis by (simp add: for_each_append)
  qed
qed


lemma dp_spec_col0: "dp_spec s1 s2 i 0 = 2 * int i"
  by (cases i) simp_all

lemma init_column:
  assumes "dims dp m n"
  shows "\<exists>dp'. for_each [0..<m + 1] (\<lambda>i dp. put dp i 0 (int i * 2)) dp = Some dp' \<and>
           dims dp' m n \<and> (\<forall>i \<le> m. dp' ! i ! 0 = 2 * int i)"
proof -
  let ?I = "\<lambda>k dp. dims dp m n \<and> (\<forall>i < k. dp ! i ! 0 = 2 * int i)"
  have "\<exists>dp'. for_each [0..<m + 1] (\<lambda>i dp. put dp i 0 (int i * 2)) dp = Some dp' \<and> ?I (m + 1) dp'"
  proof (rule for_each_invariant)
    show "?I 0 dp" using assms by simp
    show "0 \<le> m + 1" by simp
  next
    fix i dp
    assume i: "i < m + 1" and inv: "?I i dp"
    then have p: "put dp i 0 (int i * 2) = Some (dp[i := (dp ! i)[0 := int i * 2]])"
      using put_dims [of dp m n i 0] by simp
    have "?I (Suc i) (dp[i := (dp ! i)[0 := int i * 2]])"
      using i inv by (auto simp: dims_update nth_update [of dp m n] less_Suc_eq)
    with p show "\<exists>s'. put dp i 0 (int i * 2) = Some s' \<and> ?I (Suc i) s'" by simp
  qed
  then show ?thesis by (auto simp: less_Suc_eq_le)
qed

lemma init_row:
  assumes "dims dp m n" and "\<forall>i \<le> m. dp ! i ! 0 = 2 * int i"
  shows "\<exists>dp'. for_each [0..<n + 1] (\<lambda>j dp. put dp 0 j (int j * 2)) dp = Some dp' \<and>
           dims dp' m n \<and> (\<forall>i \<le> m. dp' ! i ! 0 = 2 * int i) \<and> (\<forall>j \<le> n. dp' ! 0 ! j = 2 * int j)"
proof -
  let ?I = "\<lambda>k dp. dims dp m n \<and> (\<forall>i \<le> m. dp ! i ! 0 = 2 * int i) \<and>
                    (\<forall>j < k. dp ! 0 ! j = 2 * int j)"
  have "\<exists>dp'. for_each [0..<n + 1] (\<lambda>j dp. put dp 0 j (int j * 2)) dp = Some dp' \<and> ?I (n + 1) dp'"
  proof (rule for_each_invariant)
    show "?I 0 dp" using assms by simp
    show "0 \<le> n + 1" by simp
  next
    fix j dp
    assume j: "j < n + 1" and inv: "?I j dp"
    then have p: "put dp 0 j (int j * 2) = Some (dp[0 := (dp ! 0)[j := int j * 2]])"
      using put_dims [of dp m n 0 j] by simp
    have "?I (Suc j) (dp[0 := (dp ! 0)[j := int j * 2]])"
      using j inv by (auto simp: dims_update nth_update [of dp m n] less_Suc_eq)
    with p show "\<exists>s'. put dp 0 j (int j * 2) = Some s' \<and> ?I (Suc j) s'" by simp
  qed
  then show ?thesis by (auto simp: less_Suc_eq_le)
qed

lemma cell_step:
  assumes inv: "filled s1 s2 i j dp"
    and i: "1 \<le> i" "i \<le> length s1" and j: "1 \<le> j" "j \<le> length s2"
  shows "\<exists>dp'. cell s1 s2 i j dp = Some dp' \<and> filled s1 s2 i (Suc j) dp'"
proof -
  obtain i0 j0 where ij: "i = Suc i0" "j = Suc j0"
    using i j by (cases i; cases j) auto
  let ?m = "length s1" and ?n = "length s2"
  let ?v = "dp_spec s1 s2 i j"
  from inv have d: "dims dp ?m ?n" by (simp add: filled_def)
  from inv have v: "dp ! i' ! j' = dp_spec s1 s2 i' j'"
    if "i' \<le> ?m" "j' \<le> ?n" "i' = 0 \<or> j' = 0 \<or> i' < i \<or> (i' = i \<and> j' < j)" for i' j'
    using that unfolding filled_def by blast
  from i j ij have del: "get dp (i - 1) j = Some (dp_spec s1 s2 i0 j)"
    using get_dims [OF d, of i0 j] v [of i0 j] by simp
  from i j ij have ins: "get dp i (j - 1) = Some (dp_spec s1 s2 i j0)"
    using get_dims [OF d, of i j0] v [of i j0] by simp
  from i j ij have sub: "get dp (i - 1) (j - 1) = Some (dp_spec s1 s2 i0 j0)"
    using get_dims [OF d, of i0 j0] v [of i0 j0] by simp
  from i j ij have ch: "char_at s1 (i - 1) = Some (s1 ! i0)" "char_at s2 (j - 1) = Some (s2 ! j0)"
    by (simp_all add: char_at_def)
  have c: "cell s1 s2 i j dp = Some (dp[i := (dp ! i)[j := ?v]])"
    using del ins sub ch ij put_dims [OF d i(2) j(2)]
    by (simp add: cell_def cost_spec_def isVowel_iff)
  have "filled s1 s2 i (Suc j) (dp[i := (dp ! i)[j := ?v]])"
    unfolding filled_def
  proof (intro conjI allI impI)
    show "dims (dp[i := (dp ! i)[j := ?v]]) ?m ?n" using d by (rule dims_update)
  next
    fix i' j'
    assume b: "i' \<le> ?m" "j' \<le> ?n" and c: "i' = 0 \<or> j' = 0 \<or> i' < i \<or> i' = i \<and> j' < Suc j"
    show "dp[i := (dp ! i)[j := ?v]] ! i' ! j' = dp_spec s1 s2 i' j'"
    proof (cases "i' = i \<and> j' = j")
      case True
      then show ?thesis using nth_update [OF d i(2) j(2) b(1)] by simp
    next
      case False
      with c have "i' = 0 \<or> j' = 0 \<or> i' < i \<or> i' = i \<and> j' < j" by auto
      with b have "dp ! i' ! j' = dp_spec s1 s2 i' j'" by (rule v)
      with False show ?thesis using nth_update [OF d i(2) j(2) b(1)] by simp
    qed
  qed
  with c show ?thesis by simp
qed

lemma fill_row:
  assumes inv: "filled s1 s2 i 1 dp" and i: "1 \<le> i" "i \<le> length s1"
  shows "\<exists>dp'. for_each [1..<length s2 + 1] (\<lambda>j dp. cell s1 s2 i j dp) dp = Some dp' \<and>
           filled s1 s2 (Suc i) 1 dp'"
proof -
  have "\<exists>dp'. for_each [1..<length s2 + 1] (\<lambda>j dp. cell s1 s2 i j dp) dp = Some dp' \<and>
           filled s1 s2 i (length s2 + 1) dp'"
  proof (rule for_each_invariant [where I = "\<lambda>j dp. filled s1 s2 i j dp"])
    show "filled s1 s2 i 1 dp" by (rule inv)
    show "1 \<le> length s2 + 1" by simp
  next
    fix j dp
    assume "1 \<le> j" "j < length s2 + 1" "filled s1 s2 i j dp"
    then show "\<exists>s'. cell s1 s2 i j dp = Some s' \<and> filled s1 s2 i (Suc j) s'"
      using cell_step [of s1 s2 i j dp] i by simp
  qed
  moreover have "filled s1 s2 (Suc i) 1 dp'" if f: "filled s1 s2 i (length s2 + 1) dp'" for dp'
    unfolding filled_def
  proof (intro conjI allI impI)
    show "dims dp' (length s1) (length s2)" using f by (simp add: filled_def)
  next
    fix i' j'
    assume b: "i' \<le> length s1" "j' \<le> length s2"
      and "i' = 0 \<or> j' = 0 \<or> i' < Suc i \<or> i' = Suc i \<and> j' < 1"
    then have "i' = 0 \<or> j' = 0 \<or> i' < i \<or> i' = i \<and> j' < length s2 + 1" by auto
    with f b show "dp' ! i' ! j' = dp_spec s1 s2 i' j'" unfolding filled_def by blast
  qed
  ultimately show ?thesis by blast
qed

lemma fill_table:
  assumes inv: "filled s1 s2 1 1 dp"
  shows "\<exists>dp'. for_each [1..<length s1 + 1]
             (\<lambda>i dp. for_each [1..<length s2 + 1] (\<lambda>j dp. cell s1 s2 i j dp) dp) dp = Some dp' \<and>
           filled s1 s2 (length s1 + 1) 1 dp'"
proof (rule for_each_invariant [where I = "\<lambda>i dp. filled s1 s2 i 1 dp"])
  show "filled s1 s2 1 1 dp" by (rule inv)
  show "1 \<le> length s1 + 1" by simp
next
  fix i dp
  assume "1 \<le> i" "i < length s1 + 1" "filled s1 s2 i 1 dp"
  then show "\<exists>s'. for_each [1..<length s2 + 1] (\<lambda>j dp. cell s1 s2 i j dp) dp = Some s' \<and>
                 filled s1 s2 (Suc i) 1 s'"
    using fill_row [of s1 s2 i dp] by simp
qed

lemma sequenceTable_eq:
  "sequenceTable s1 s2 = Some (dp_spec s1 s2 (length s1) (length s2))"
proof -
  let ?m = "length s1" and ?n = "length s2"
  let ?dp0 = "replicate (?m + 1) (replicate (?n + 1) (0::int))"
  obtain dp1 where dp1: "for_each [0..<?m + 1] (\<lambda>i dp. put dp i 0 (int i * 2)) ?dp0 = Some dp1"
      "dims dp1 ?m ?n" "\<forall>i \<le> ?m. dp1 ! i ! 0 = 2 * int i"
    using init_column [OF dims_replicate, of ?m ?n] by blast
  obtain dp2 where dp2: "for_each [0..<?n + 1] (\<lambda>j dp. put dp 0 j (int j * 2)) dp1 = Some dp2"
      "dims dp2 ?m ?n" "\<forall>i \<le> ?m. dp2 ! i ! 0 = 2 * int i" "\<forall>j \<le> ?n. dp2 ! 0 ! j = 2 * int j"
    using init_row [OF dp1(2,3)] by blast
  have "filled s1 s2 1 1 dp2"
    using dp2(2,3,4) by (auto simp: filled_def dp_spec_col0)
  then obtain dp3 where dp3: "for_each [1..<?m + 1]
        (\<lambda>i dp. for_each [1..<?n + 1] (\<lambda>j dp. cell s1 s2 i j dp) dp) dp2 = Some dp3"
      "filled s1 s2 (?m + 1) 1 dp3"
    using fill_table by blast
  from dp3(2) have "get dp3 ?m ?n = Some (dp_spec s1 s2 ?m ?n)"
    using get_dims [of dp3 ?m ?n ?m ?n] by (simp add: filled_def)
  with dp1(1) dp2(1) dp3(1) show ?thesis
    by (simp add: sequenceTable_def Let_def del: replicate.simps)
qed

text \<open>
  C1. For all strings \<open>s1\<close> (length \<open>m\<close>) and \<open>s2\<close> (length \<open>n\<close>), \<open>sequenceTable\<close> returns,
  without ever leaving the allocated table, the cell \<open>dp[m][n]\<close> of the table given by
  \<open>dp[i][0] = 2i\<close>, \<open>dp[0][j] = 2j\<close> and
  \<open>dp[i][j] = min(dp[i-1][j] + 2, dp[i][j-1] + 2, dp[i-1][j-1] + cost(s1[i-1], s2[j-1]))\<close>,
  where the cost is 0 on equal characters, 1 between two vowels (of either case), 1 between
  two non-vowels, and 3 between a vowel and a non-vowel.
\<close>

theorem sequenceTable_is_dp_table:
  "sequenceTable s1 s2 = Some (dp_spec s1 s2 (length s1) (length s2))"
  by (rule sequenceTable_eq)

section \<open>Properties of the table\<close>

lemma cost_spec_nonneg: "0 \<le> cost_spec a b"
  by (simp add: cost_spec_def)

lemma cost_spec_sym: "cost_spec a b = cost_spec b a"
  by (auto simp: cost_spec_def)

lemma cost_spec_zero: "cost_spec a b = 0 \<longleftrightarrow> a = b"
  by (simp add: cost_spec_def)

lemma dp_spec_nonneg: "0 \<le> dp_spec s1 s2 i j"
proof (induction s1 s2 i j rule: dp_spec.induct)
  case (3 s1 s2 i j)
  then show ?case
    using cost_spec_nonneg [of "s1 ! i" "s2 ! j"] by simp
qed simp_all

lemma dp_spec_gap_bound: "dp_spec s1 s2 i j \<le> 2 * (int i + int j)"
proof (induction s1 s2 i j rule: dp_spec.induct)
  case (3 s1 s2 i j)
  have "dp_spec s1 s2 (Suc i) (Suc j) \<le> dp_spec s1 s2 i (Suc j) + 2" by simp
  with 3(1) show ?case by simp
qed simp_all

lemma dp_spec_sym: "dp_spec a b i j = dp_spec b a j i"
proof (induction a b i j rule: dp_spec.induct)
  case (1 s1 s2 j)
  show ?case by (simp add: dp_spec_col0)
next
  case (2 s1 s2 i)
  show ?case by simp
next
  case (3 s1 s2 i j)
  then show ?case by (simp add: cost_spec_sym [of "s1 ! i"] min.left_commute min.commute)
qed

lemma dp_spec_diag: "dp_spec w w i i = 0"
proof (induction i)
  case 0
  show ?case by simp
next
  case (Suc i)
  have "dp_spec w w (Suc i) (Suc i) \<le> dp_spec w w i i + cost_spec (w ! i) (w ! i)"
    by simp
  with Suc have "dp_spec w w (Suc i) (Suc i) \<le> 0" by (simp add: cost_spec_def)
  then show ?case using dp_spec_nonneg [of w w "Suc i" "Suc i"] by (rule order.antisym)
qed

lemma dp_spec_zero:
  "dp_spec a b i j = 0 \<Longrightarrow> i \<le> length a \<Longrightarrow> j \<le> length b \<Longrightarrow> i = j \<and> take i a = take j b"
proof (induction a b i j rule: dp_spec.induct)
  case (1 s1 s2 j)
  then show ?case by simp
next
  case (2 s1 s2 i)
  then show ?case by simp
next
  case (3 s1 s2 i j)
  let ?c = "cost_spec (s1 ! i) (s2 ! j)"
  from "3.prems"(1) have
    "dp_spec s1 s2 i (Suc j) + 2 = 0 \<or> dp_spec s1 s2 (Suc i) j + 2 = 0 \<or> dp_spec s1 s2 i j + ?c = 0"
    by (simp add: min_def split: if_splits)
  with dp_spec_nonneg [of s1 s2 i "Suc j"] dp_spec_nonneg [of s1 s2 "Suc i" j]
  have "dp_spec s1 s2 i j + ?c = 0" by auto
  with dp_spec_nonneg [of s1 s2 i j] cost_spec_nonneg [of "s1 ! i" "s2 ! j"]
  have z: "dp_spec s1 s2 i j = 0" and c: "?c = 0" by auto
  from c have eq: "s1 ! i = s2 ! j" by (simp add: cost_spec_zero)
  from "3.IH"(3) [OF z] "3.prems" have ij: "i = j" and tk: "take i s1 = take j s2" by auto
  from "3.prems" ij tk eq show ?case by (simp add: take_Suc_conv_app_nth)
qed

section \<open>The distance\<close>

text \<open>
  C5. For every string \<open>s\<close>, the distance between the empty string and \<open>s\<close>, in either
  order, is twice the length of \<open>s\<close>.
\<close>

theorem distance_to_empty:
  "sequenceTable [] s = Some (2 * int (length s)) \<and> sequenceTable s [] = Some (2 * int (length s))"
  by (simp add: sequenceTable_eq dp_spec_col0)

text \<open>C6. For every string \<open>w\<close>, the distance from \<open>w\<close> to itself is 0.\<close>

theorem distance_identity: "sequenceTable w w = Some 0"
  by (simp add: sequenceTable_eq dp_spec_diag)

text \<open>
  C7, as stated, fails: the distance may exceed twice the longer length. Between \<open>"a"\<close>
  and \<open>"b"\<close>, a vowel and a consonant, the substitution costs 3 and the two gaps cost 4,
  so the distance is 3, above \<open>2 * max(1, 1) = 2\<close>.
\<close>

theorem distance_max_bound_counterexample:
  "sequenceTable ''a'' ''b'' = Some 3 \<and>
   \<not> (3::int) \<le> 2 * max (int (length ''a'')) (int (length ''b''))"
  by code_simp

text \<open>
  C7, amended. For all strings \<open>a\<close> and \<open>b\<close> the distance is a non-negative integer and
  is at most the cost of the path of gaps only, \<open>2 * (len(a) + len(b))\<close>.
\<close>

theorem distance_bounds:
  "\<exists>d. sequenceTable a b = Some d \<and> 0 \<le> d \<and> d \<le> 2 * (int (length a) + int (length b))"
  using dp_spec_nonneg [of a b "length a" "length b"] dp_spec_gap_bound [of a b "length a" "length b"]
  by (simp add: sequenceTable_eq)

text \<open>C10. The distance is symmetric: for all strings \<open>a\<close> and \<open>b\<close>, \<open>sequenceTable\<close>
  returns a distance from \<open>a\<close> to \<open>b\<close> and from \<open>b\<close> to \<open>a\<close>, and the two are the same
  number.\<close>

theorem distance_symmetric:
  "\<exists>d. sequenceTable a b = Some d \<and> sequenceTable b a = Some d"
  by (simp add: sequenceTable_eq dp_spec_sym [of a b])

section \<open>The ranker\<close>

text \<open>The comparison function \<open>(a, b) => a.distance - b.distance\<close> sorts by the key
  \<open>distance\<close>, and the sort commutes with building the items.\<close>

lemma insert_cmp_key: "insert_cmp (\<lambda>a b. f a - f b) x xs = insort_key f x xs"
  by (induction xs) auto

lemma sort_cmp_key: "sort_cmp (\<lambda>a b. f a - f b) xs = sort_key f xs"
  by (induction xs) (simp_all add: sort_cmp_def insert_cmp_key)

lemma map_each_total: "(\<And>x. f x = Some (g x)) \<Longrightarrow> map_each f xs = Some (map g xs)"
  by (induction xs) simp_all

lemma insort_key_map:
  "insort_key f (g x) (map g xs) = map g (insort_key (\<lambda>y. f (g y)) x xs)"
  by (induction xs) simp_all

lemma sort_key_map: "sort_key f (map g xs) = map g (sort_key (\<lambda>y. f (g y)) xs)"
  by (induction xs) (simp_all add: insort_key_map)

text \<open>The ranker never fails, and returns the first ten words of the dictionary sorted
  stably by their distance to the input.\<close>

lemma getSuggestions_eq:
  "getSuggestions dictionary input =
     Some (if input = [] then []
           else take 10 (sort_key (\<lambda>w. dp_spec input w (length input) (length w)) dictionary))"
proof -
  let ?d = "\<lambda>w. dp_spec input w (length input) (length w)"
  let ?g = "\<lambda>w. \<lparr>word = w, distance = ?d w\<rparr>"
  have m: "map_each (\<lambda>w. do { d \<leftarrow> sequenceTable input w; Some \<lparr>word = w, distance = d\<rparr> }) dictionary
        = Some (map ?g dictionary)"
    by (rule map_each_total) (simp add: sequenceTable_eq)
  have "map word (take 10 (sort_key distance (map ?g dictionary))) = take 10 (sort_key ?d dictionary)"
    by (simp add: sort_key_map take_map comp_def)
  with m show ?thesis by (simp add: getSuggestions_def sort_cmp_key)
qed

lemma prefix_filter_take: "prefix (filter P (take n xs)) (filter P xs)"
proof -
  have "filter P xs = filter P (take n xs) @ filter P (drop n xs)"
    by (simp flip: filter_append)
  then show ?thesis by (rule prefixI)
qed

text \<open>
  C2. For every non-empty input and every dictionary, the words returned by
  \<open>getSuggestions\<close> are in ascending order of their distance to the input, and for each
  distance \<open>k\<close> the returned words at distance \<open>k\<close> are the first ones of the
  dictionary's words at distance \<open>k\<close>, in the dictionary's order (a stable tie-break). In
  particular the dictionary \<open>["cat", "bat", "cot"]\<close> with the input \<open>"cat"\<close> gives
  \<open>["cat", "bat", "cot"]\<close>.
\<close>

theorem suggestions_sorted_stable:
  "input \<noteq> [] \<Longrightarrow>
   (\<exists>r ds. getSuggestions dictionary input = Some r \<and>
       map (sequenceTable input) r = map Some ds \<and> sorted ds \<and>
       (\<forall>k. prefix (filter (\<lambda>w. sequenceTable input w = Some k) r)
                   (filter (\<lambda>w. sequenceTable input w = Some k) dictionary))) \<and>
   getSuggestions [''cat'', ''bat'', ''cot''] ''cat'' = Some [''cat'', ''bat'', ''cot'']"
proof (intro conjI)
  assume ne: "input \<noteq> []"
  let ?d = "\<lambda>w. dp_spec input w (length input) (length w)"
  let ?r = "take 10 (sort_key ?d dictionary)"
  have r: "getSuggestions dictionary input = Some ?r"
    using ne by (simp add: getSuggestions_eq)
  have m: "map (sequenceTable input) ?r = map Some (map ?d ?r)"
    by (simp add: sequenceTable_eq)
  have "sorted (take 10 (map ?d (sort_key ?d dictionary)))"
    by (rule sorted_wrt_take) (rule sorted_sort_key)
  then have s: "sorted (map ?d ?r)" by (simp add: take_map)
  have p: "prefix (filter (\<lambda>w. sequenceTable input w = Some k) ?r)
                  (filter (\<lambda>w. sequenceTable input w = Some k) dictionary)" for k
    using prefix_filter_take [of "\<lambda>w. ?d w = k" 10 "sort_key ?d dictionary"]
    by (simp add: sequenceTable_eq sort_key_stable)
  from r m s p
  show "\<exists>r ds. getSuggestions dictionary input = Some r \<and>
       map (sequenceTable input) r = map Some ds \<and> sorted ds \<and>
       (\<forall>k. prefix (filter (\<lambda>w. sequenceTable input w = Some k) r)
                   (filter (\<lambda>w. sequenceTable input w = Some k) dictionary))"
    by blast
next
  show "getSuggestions [''cat'', ''bat'', ''cot''] ''cat'' = Some [''cat'', ''bat'', ''cot'']"
    by code_simp
qed

text \<open>C2 at the input \<open>"hwllo"\<close> and a dictionary of four words.\<close>

theorem suggestions_sorted_stable_witness:
  "''hwllo'' \<noteq> [] \<and>
   (\<exists>r ds. getSuggestions [''world'', ''jello'', ''hallo'', ''hello''] ''hwllo'' = Some r \<and>
       map (sequenceTable ''hwllo'') r = map Some ds \<and> sorted ds \<and>
       (\<forall>k. prefix (filter (\<lambda>w. sequenceTable ''hwllo'' w = Some k) r)
                   (filter (\<lambda>w. sequenceTable ''hwllo'' w = Some k)
                      [''world'', ''jello'', ''hallo'', ''hello''])))"
  using suggestions_sorted_stable [of "''hwllo''" "[''world'', ''jello'', ''hallo'', ''hello'']"]
  by simp

text \<open>
  C3, as stated, fails: \<open>getSuggestions\<close> has no limit parameter. With the dictionary
  \<open>["test", "text"]\<close> and the input \<open>"test"\<close> it returns both words, whatever limit the
  caller has in mind: not \<open>min(1, 2) = 1\<close> word for a limit of 1, and not the empty
  sequence for a limit of 0.
\<close>

theorem limit_counterexample:
  "getSuggestions [''test'', ''text''] ''test'' = Some [''test'', ''text''] \<and>
   length [''test'', ''text''] \<noteq> min 1 (length [''test'', ''text'']) \<and>
   [''test'', ''text''] \<noteq> []"
  by code_simp

text \<open>
  C3, amended. \<open>getSuggestions\<close> takes no limit: the number of suggestions is fixed at
  10. For every non-empty input the length of the result is \<open>min(10, len(dictionary))\<close>.
\<close>

theorem suggestions_length:
  "input \<noteq> [] \<Longrightarrow>
   \<exists>r. getSuggestions dictionary input = Some r \<and> length r = min 10 (length dictionary)"
  by (simp add: getSuggestions_eq min.commute)

text \<open>C3, amended, at the input \<open>"b"\<close> and a dictionary of twelve words.\<close>

theorem suggestions_length_witness:
  "''b'' \<noteq> [] \<and>
   (\<exists>r. getSuggestions [''a'', ''b'', ''c'', ''d'', ''e'', ''f'', ''g'', ''h'', ''i'', ''j'', ''k'', ''l''] ''b'' = Some r \<and>
        length r = min 10 (length [''a'', ''b'', ''c'', ''d'', ''e'', ''f'', ''g'', ''h'', ''i'', ''j'', ''k'', ''l'']))"
  using suggestions_length [of "''b''" "[''a'', ''b'', ''c'', ''d'', ''e'', ''f'', ''g'', ''h'', ''i'', ''j'', ''k'', ''l'']"]
  by simp

text \<open>
  C4. \<open>getSuggestions\<close> returns the empty sequence when the input is empty, and when the
  dictionary is empty, and in neither case fails.
\<close>

theorem suggestions_empty:
  "getSuggestions dictionary [] = Some [] \<and> getSuggestions [] input = Some []"
  by (simp add: getSuggestions_def sort_cmp_def)

text \<open>
  C8. For every dictionary and every non-empty word \<open>w\<close> in it, \<open>getSuggestions\<close> called
  with \<open>w\<close> as the input returns \<open>w\<close> first, and the distance of \<open>w\<close> to the input is 0.
\<close>

theorem suggestions_round_trip:
  assumes "w \<noteq> []" and "w \<in> set dictionary"
  shows "(\<exists>rest. getSuggestions dictionary w = Some (w # rest)) \<and> sequenceTable w w = Some 0"
proof -
  let ?d = "\<lambda>v. dp_spec w v (length w) (length v)"
  let ?s = "sort_key ?d dictionary"
  from assms(2) have "w \<in> set ?s" by simp
  then obtain h t where ht: "?s = h # t" by (cases ?s) auto
  have "sorted (map ?d ?s)" by (rule sorted_sort_key)
  with ht \<open>w \<in> set ?s\<close> have "?d h \<le> ?d w" by auto
  then have "?d h \<le> 0" by (simp add: dp_spec_diag)
  with dp_spec_nonneg [of w h "length w" "length h"] have "?d h = 0" by simp
  from dp_spec_zero [OF this] have "h = w" by simp
  with ht assms(1) have "getSuggestions dictionary w = Some (w # take 9 t)"
    by (simp add: getSuggestions_eq)
  then show ?thesis by (simp add: sequenceTable_eq dp_spec_diag)
qed

text \<open>C8 at the word \<open>"cat"\<close>, second in its dictionary.\<close>

theorem suggestions_round_trip_witness:
  "''cat'' \<noteq> [] \<and> ''cat'' \<in> set [''bat'', ''cat'', ''cot''] \<and>
   (\<exists>rest. getSuggestions [''bat'', ''cat'', ''cot''] ''cat'' = Some (''cat'' # rest)) \<and>
   sequenceTable ''cat'' ''cat'' = Some 0"
  using suggestions_round_trip [of "''cat''" "[''bat'', ''cat'', ''cot'']"]
  by simp

text \<open>
  C9. For the dictionary \<open>["hello", "hallo", "jello", "world"]\<close> and the input \<open>"hwllo"\<close>
  the result is \<open>["hello", "hallo", "jello", "world"]\<close>, with the distances 3, 3, 4 and 7:
  \<open>"hello"\<close> and \<open>"hallo"\<close> both come before \<open>"world"\<close>, and \<open>"hello"\<close> comes before
  \<open>"hallo"\<close>.
\<close>

theorem hwllo_scenario:
  "getSuggestions [''hello'', ''hallo'', ''jello'', ''world''] ''hwllo''
     = Some [''hello'', ''hallo'', ''jello'', ''world''] \<and>
   map (sequenceTable ''hwllo'') [''hello'', ''hallo'', ''jello'', ''world'']
     = [Some 3, Some 3, Some 4, Some 7]"
  by code_simp

end
